theory Spec2Isabelle
  imports Main "HOL-Library.Word"
begin

section \<open>MUP1 frame codec (js/velocitydrive-protocol.js)\<close>

text \<open>
  A byte is an element of a \<open>Uint8Array\<close>. JavaScript numbers that the code treats with
  the 32-bit operators \<open>>>\<close>, \<open>&\<close> and \<open>~\<close> are integers here, with the conversion
  \<open>ToInt32\<close> written out.
\<close>

type_synonym byte = "8 word"

definition SOF :: byte where
  "SOF = 0x3E"

definition EOF :: byte where
  "EOF = 0x3C"

definition ESCAPE :: byte where
  "ESCAPE = 0x5C"

definition ESCAPE_MAP :: "byte \<rightharpoonup> byte" where
  "ESCAPE_MAP = [0x00 \<mapsto> 0x30, 0xFF \<mapsto> 0x46, 0x3E \<mapsto> 0x3E, 0x3C \<mapsto> 0x3C, 0x5C \<mapsto> 0x5C]"

definition needsEscape :: "byte \<Rightarrow> bool" where
  "needsEscape b \<longleftrightarrow> b = 0x00 \<or> b = 0xFF \<or> b = 0x3E \<or> b = 0x3C \<or> b = 0x5C"

text \<open>
  \<open>unescapeByte\<close> returns \<open>reverseMap[escapedByte] || escapedByte\<close>: the operator \<open>||\<close>
  yields its right operand when the left one is \<open>undefined\<close> (no entry) and also when
  it is the number 0.
\<close>

definition reverseMap :: "byte \<rightharpoonup> byte" where
  "reverseMap = [0x30 \<mapsto> 0x00, 0x46 \<mapsto> 0xFF, 0x3E \<mapsto> 0x3E, 0x3C \<mapsto> 0x3C, 0x5C \<mapsto> 0x5C]"

definition unescapeByte :: "byte \<Rightarrow> byte" where
  "unescapeByte escapedByte =
     (case reverseMap escapedByte of
        None \<Rightarrow> escapedByte
      | Some v \<Rightarrow> if v \<noteq> 0 then v else escapedByte)"

subsection \<open>Checksum\<close>

definition toInt32 :: "int \<Rightarrow> int" where
  "toInt32 x = (x + 2147483648) mod 4294967296 - 2147483648"

text \<open>The summation loop of \<open>calculateChecksum\<close>: \<open>(data[i] << 8) | data[i + 1]\<close> on two
  bytes is \<open>256 * data[i] + data[i + 1]\<close>, and a last single byte counts as \<open>data[i] << 8\<close>.\<close>

fun sumWords :: "byte list \<Rightarrow> int" where
  "sumWords [] = 0"
| "sumWords [a] = uint a * 256"
| "sumWords (a # b # rest) = (uint a * 256 + uint b) + sumWords rest"

definition carryStep :: "int \<Rightarrow> int" where
  "carryStep s = toInt32 s mod 65536 + toInt32 s div 65536"

definition carryRank :: "int \<Rightarrow> nat" where
  "carryRank s =
     (if toInt32 s div 65536 = 0 then 0
      else if s = toInt32 s \<and> - 32768 \<le> s \<and> s \<le> 98302 then 1 else 2)"

lemma toInt32_range: "- 2147483648 \<le> toInt32 x \<and> toInt32 x < 2147483648"
  unfolding toInt32_def by simp

lemma toInt32_id: "- 2147483648 \<le> x \<Longrightarrow> x < 2147483648 \<Longrightarrow> toInt32 x = x"
  unfolding toInt32_def by simp

lemma carryStep_range: "- 32768 \<le> carryStep s \<and> carryStep s \<le> 98302"
proof -
  have r: "- 2147483648 \<le> toInt32 s \<and> toInt32 s < 2147483648"
    by (rule toInt32_range)
  have d: "- 32768 \<le> toInt32 s div 65536 \<and> toInt32 s div 65536 \<le> 32767"
  proof
    have "(- 2147483648) div 65536 \<le> toInt32 s div (65536::int)"
      using r by (intro zdiv_mono1) simp_all
    then show "- 32768 \<le> toInt32 s div 65536" by simp
    have "toInt32 s div 65536 \<le> 2147483647 div (65536::int)"
      using r by (intro zdiv_mono1) simp_all
    then show "toInt32 s div 65536 \<le> 32767" by simp
  qed
  have m: "0 \<le> toInt32 s mod 65536 \<and> toInt32 s mod 65536 < 65536" by simp
  show ?thesis unfolding carryStep_def using d m by linarith
qed

lemma carryRank_step:
  assumes nz: "toInt32 s div 65536 \<noteq> 0"
  shows "carryRank (carryStep s) < carryRank s"
proof -
  have rg: "- 32768 \<le> carryStep s \<and> carryStep s \<le> 98302"
    by (rule carryStep_range)
  then have idc: "toInt32 (carryStep s) = carryStep s"
    by (simp add: toInt32_id)
  show ?thesis
  proof (cases "s = toInt32 s \<and> - 32768 \<le> s \<and> s \<le> 98302")
    case False
    then have "carryRank s = 2" using nz by (simp add: carryRank_def)
    moreover have "carryRank (carryStep s) \<le> 1" using rg idc by (simp add: carryRank_def)
    ultimately show ?thesis by simp
  next
    case small: True
    then have one: "carryRank s = 1" using nz by (simp add: carryRank_def)
    have cs: "carryStep s = s mod 65536 + s div 65536"
      using small by (simp add: carryStep_def)
    have nz': "s div 65536 \<noteq> 0" using small nz by simp
    have "0 \<le> carryStep s \<and> carryStep s < 65536"
    proof (cases "s < 0")
      case True
      with small have b: "- 32768 \<le> s \<and> s < 0" by simp
      have "s div 65536 = - 1 \<and> s mod 65536 = s + 65536"
        using b by (intro conjI int_div_pos_eq [where r = "s + 65536"]
            int_mod_pos_eq [where q = "- 1"]) simp_all
      then show ?thesis unfolding cs using b by simp
    next
      case False
      with small nz' have b: "65536 \<le> s \<and> s \<le> 98302"
        by (simp add: zdiv_eq_0_iff)
      have "s div 65536 = 1 \<and> s mod 65536 = s - 65536"
        using b by (intro conjI int_div_pos_eq [where r = "s - 65536"]
            int_mod_pos_eq [where q = "1"]) simp_all
      then show ?thesis unfolding cs using b by simp
    qed
    then have "carryStep s div 65536 = 0" by simp
    then have "carryRank (carryStep s) = 0" using idc by (simp add: carryRank_def)
    then show ?thesis using one by simp
  qed
qed

text \<open>\<open>while (sum >> 16) sum = (sum & 0xFFFF) + (sum >> 16)\<close>: both operators convert
  their left operand with \<open>ToInt32\<close>; the loop ends after at most two rounds.\<close>

function foldCarry :: "int \<Rightarrow> int" where
  "foldCarry s =
     (if toInt32 s div 65536 \<noteq> 0
      then foldCarry (toInt32 s mod 65536 + toInt32 s div 65536)
      else s)"
  by pat_completeness auto
termination
  by (relation "measure carryRank") (use carryRank_step in \<open>auto simp: carryStep_def\<close>)

declare foldCarry.simps [simp del]

text \<open>\<open>(~sum) & 0xFFFF\<close>.\<close>

definition calculateChecksum :: "byte list \<Rightarrow> int" where
  "calculateChecksum data = (- toInt32 (foldCarry (sumWords data)) - 1) mod 65536"

subsection \<open>Hexadecimal text of the checksum\<close>

definition hexUpper :: "nat \<Rightarrow> char" where
  "hexUpper d = ''0123456789ABCDEF'' ! d"

text \<open>\<open>n.toString(16).toUpperCase()\<close> for a non-negative integer.\<close>

fun toHexUpper :: "nat \<Rightarrow> string" where
  "toHexUpper n = (if n < 16 then [hexUpper n] else toHexUpper (n div 16) @ [hexUpper (n mod 16)])"

declare toHexUpper.simps [simp del]

definition padStart :: "nat \<Rightarrow> char \<Rightarrow> string \<Rightarrow> string" where
  "padStart n c s = replicate (n - length s) c @ s"

definition checksumString :: "int \<Rightarrow> string" where
  "checksumString c = padStart 4 (CHR ''0'') (toHexUpper (nat c))"

definition charCode :: "char \<Rightarrow> byte" where
  "charCode c = of_char c"

subsection \<open>encodeFrame\<close>

fun escapeData :: "byte list \<Rightarrow> byte list" where
  "escapeData [] = []"
| "escapeData (b # bs) =
     (if needsEscape b
      then (case ESCAPE_MAP b of Some e \<Rightarrow> [ESCAPE, e] | None \<Rightarrow> [ESCAPE, 0])
      else [b]) @ escapeData bs"

definition encodeFrame :: "byte \<Rightarrow> byte list \<Rightarrow> byte list" where
  "encodeFrame type data =
     (let frame = [SOF, type] @ escapeData data @ [EOF];
          frame = (if length frame mod 2 = 0 then frame @ [EOF] else frame);
          checksumStr = checksumString (calculateChecksum frame)
      in frame @ map charCode checksumStr)"

definition createPing :: "byte list" where
  "createPing = encodeFrame 0x50 []"

definition createCoapFrame :: "byte list \<Rightarrow> byte list" where
  "createCoapFrame coapMessage = encodeFrame 0x43 coapMessage"

subsection \<open>decodeFrame\<close>

text \<open>Typed-array reads: \<open>buffer[i]\<close> is \<open>undefined\<close> (here \<open>None\<close>) outside the array,
  \<open>indexOf\<close> answers \<open>-1\<close> when the byte does not occur, and
  \<open>String.fromCharCode(undefined)\<close> is the character with code 0.\<close>

definition at :: "byte list \<Rightarrow> int \<Rightarrow> byte option" where
  "at buffer i = (if 0 \<le> i \<and> i < int (length buffer) then Some (buffer ! nat i) else None)"

fun indexOfAux :: "byte \<Rightarrow> byte list \<Rightarrow> nat \<Rightarrow> int" where
  "indexOfAux x [] i = - 1"
| "indexOfAux x (b # bs) i = (if b = x then int i else indexOfAux x bs (Suc i))"

definition indexOf :: "byte list \<Rightarrow> byte \<Rightarrow> nat \<Rightarrow> int" where
  "indexOf buffer x fromIndex = indexOfAux x (drop fromIndex buffer) fromIndex"

definition fromCharCode :: "byte option \<Rightarrow> char" where
  "fromCharCode v = (case v of Some b \<Rightarrow> char_of (unat b) | None \<Rightarrow> char_of (0::nat))"

datatype frame_error = FrameTooShort | InvalidStartOfFrame

text \<open>The object \<open>decodeFrame\<close> returns, and whether it logged a checksum mismatch.\<close>

record decoded_frame =
  d_type :: char
  d_data :: "byte list"
  d_checksum :: string
  d_mismatch_warned :: bool

text \<open>The body of the decoding loop, over the bytes at the indices \<open>2 \<le> i < length - 4\<close>.\<close>

fun decodeLoop :: "byte list \<Rightarrow> bool \<Rightarrow> byte list" where
  "decodeLoop [] escaping = []"
| "decodeLoop (b # bs) escaping =
     (if b = EOF then []
      else if escaping then unescapeByte b # decodeLoop bs False
      else if b = ESCAPE then decodeLoop bs True
      else b # decodeLoop bs False)"

definition decodeFrame :: "byte list \<Rightarrow> frame_error + decoded_frame" where
  "decodeFrame buffer =
     (if length buffer < 8 then Inl FrameTooShort
      else if buffer ! 0 \<noteq> SOF then Inl InvalidStartOfFrame
      else
        let type = buffer ! 1;
            data = decodeLoop (take (length buffer - 4 - 2) (drop 2 buffer)) False;
            frameEnd = indexOf buffer EOF 2;
            checksumStart = (if at buffer (frameEnd + 1) = Some EOF then frameEnd + 2 else frameEnd + 1);
            providedChecksum = map (\<lambda>k. fromCharCode (at buffer (checksumStart + k))) [0, 1, 2, 3];
            frameForChecksum = take (nat (frameEnd + 1)) buffer;
            calculatedChecksum = checksumString (calculateChecksum frameForChecksum)
        in Inr \<lparr> d_type = char_of (unat type), d_data = data, d_checksum = providedChecksum,
                 d_mismatch_warned = (providedChecksum \<noteq> calculatedChecksum) \<rparr>)"


section \<open>Byte reassembly (WebSerialConnection.handleIncomingData, js/pages.js)\<close>

text \<open>\<open>buffer.slice(start, end)\<close> for \<open>0 \<le> start\<close> and \<open>end \<le> buffer.length\<close>.\<close>

definition slice :: "byte list \<Rightarrow> int \<Rightarrow> int \<Rightarrow> byte list" where
  "slice buffer start end = take (nat end - nat start) (drop (nat start) buffer)"

lemma indexOfAux_ge: "- 1 \<le> indexOfAux x bs i"
  by (induction bs arbitrary: i) auto

lemma indexOf_ge: "- 1 \<le> indexOf buffer x fromIndex"
  by (simp add: indexOf_def indexOfAux_ge)

text \<open>
  The \<open>while (true)\<close> loop of \<open>handleIncomingData\<close>, after the new bytes were appended:
  it returns the slices handed to the data callback, in order, and the buffer that is
  kept. Every round takes at least five bytes off the buffer.
\<close>

function extractFrames :: "byte list \<Rightarrow> byte list list \<times> byte list" where
  "extractFrames buffer =
     (let startIndex = indexOf buffer 0x3E 0 in
      if startIndex = - 1 then ([], buffer)
      else
        let endIndex = indexOf buffer 0x3C (nat startIndex) in
        if endIndex = - 1 then ([], buffer)
        else
          let checksumEnd =
                (if at buffer (endIndex + 1) = Some 0x3C then endIndex + 6 else endIndex + 5) in
          if int (length buffer) < checksumEnd then ([], buffer)
          else
            let frame = slice buffer startIndex checksumEnd;
                (frames, rest) = extractFrames (drop (nat checksumEnd) buffer)
            in (frame # frames, rest))"
  by pat_completeness auto
termination
proof (relation "measure length", goal_cases)
  case 1
  show ?case by simp
next
  case (2 buffer startIndex endIndex checksumEnd frame)
  have "- 1 \<le> endIndex" using 2 by (simp add: indexOf_ge)
  then have "0 \<le> endIndex" using 2 by simp
  then have "0 < checksumEnd" using 2 by (simp split: if_splits)
  then show ?case using 2 by simp
qed

declare extractFrames.simps [simp del]

definition handleIncomingData :: "byte list \<Rightarrow> byte list \<Rightarrow> byte list list \<times> byte list" where
  "handleIncomingData buffer bytes = extractFrames (buffer @ bytes)"

section \<open>CoAP message builder (CoAPClient.buildMessage, CoAPClient.encodeOptions)\<close>

text \<open>
  A URI is a JavaScript string, here a list of 8-bit characters (the URIs of this
  repository are ASCII). The arrays \<open>options\<close> and \<open>header\<close> hold JavaScript numbers,
  here integers; \<open>new Uint8Array(header)\<close> reduces each of them modulo 256.
\<close>

text \<open>\<open>s.split(c)\<close> for a one-character separator: every occurrence splits, empty
  pieces are kept, and the empty string gives one empty piece.\<close>

fun splitOn :: "char \<Rightarrow> string \<Rightarrow> string list" where
  "splitOn c [] = [[]]"
| "splitOn c (x # xs) =
     (if x = c then [] # splitOn c xs
      else (case splitOn c xs of t # ts \<Rightarrow> (x # t) # ts | [] \<Rightarrow> [[x]]))"

definition charCodeAt :: "char \<Rightarrow> int" where
  "charCodeAt c = of_char c"

text \<open>\<open>const [pathPart, queryPart] = uri.split('?')\<close>: the first two pieces; \<open>queryPart\<close>
  is \<open>undefined\<close> when the URI has no \<open>?\<close>.\<close>

definition pathPart :: "string \<Rightarrow> string" where
  "pathPart uri = (case splitOn (CHR ''?'') uri of p # _ \<Rightarrow> p | [] \<Rightarrow> [])"

definition queryPart :: "string \<Rightarrow> string option" where
  "queryPart uri = (case splitOn (CHR ''?'') uri of _ # q # _ \<Rightarrow> Some q | _ \<Rightarrow> None)"

definition segments :: "string \<Rightarrow> string list" where
  "segments uri = filter (\<lambda>s. s \<noteq> []) (splitOn (CHR ''/'') (pathPart uri))"

text \<open>
  The bytes pushed before the segment bytes in one round of \<open>segments.forEach\<close>, for the
  values of \<open>delta\<close> and \<open>length\<close> of that round. \<open>firstByte\<close> is pushed only where the
  code tests \<open>if (firstByte)\<close>, that is when it is not 0. On the ranges that occur,
  \<open>(delta << 4) | length\<close> is \<open>delta * 16 + length\<close>, \<open>x >> 8\<close> is \<open>x div 256\<close> and
  \<open>x & 0xFF\<close> is \<open>x mod 256\<close>.
\<close>

definition pathOptionHeader :: "int \<Rightarrow> int \<Rightarrow> int list" where
  "pathOptionHeader delta len =
     (if delta < 13 \<and> len < 13 then [delta * 16 + len]
      else
        let (pushed, firstByte) =
              (if delta < 13 then ([], delta * 16)
               else if delta < 269 then ([13 * 16, delta - 13], 0)
               else ([14 * 16, (delta - 269) div 256, (delta - 269) mod 256], 0))
        in pushed @
           (if len < 13 then (if firstByte \<noteq> 0 then [firstByte + len] else [])
            else if len < 269 then (if firstByte \<noteq> 0 then [firstByte + 13] else []) @ [len - 13]
            else (if firstByte \<noteq> 0 then [firstByte + 14] else [])
                 @ [(len - 269) div 256, (len - 269) mod 256]))"

text \<open>An option as one round of a loop of \<open>encodeOptions\<close> emits it: the option number
  the round is written for, and the bytes it pushes.\<close>

type_synonym emitted_option = "int \<times> int list"

text \<open>\<open>segments.forEach\<close>, from a value of \<open>prevOption\<close>: the options emitted and the
  value of \<open>prevOption\<close> afterwards.\<close>

fun pathOptions :: "int \<Rightarrow> string list \<Rightarrow> emitted_option list \<times> int" where
  "pathOptions prevOption [] = ([], prevOption)"
| "pathOptions prevOption (segment # rest) =
     (let delta = 11 - prevOption;
          len = int (length segment);
          bytes = pathOptionHeader delta len @ map charCodeAt segment;
          (more, prev) = pathOptions 11 rest
      in ((11, bytes) # more, prev))"

definition contentFormatOption :: "int \<Rightarrow> emitted_option" where
  "contentFormatOption prevOption = (12, [(12 - prevOption) * 16 + 1, 60])"

definition queryOptionHeader :: "int \<Rightarrow> int \<Rightarrow> int list" where
  "queryOptionHeader delta len =
     (if delta < 13 \<and> len < 13 then [delta * 16 + len]
      else [(if delta < 13 then delta else 13) * 16 + 13, len - 13])"

fun queryOptions :: "int \<Rightarrow> string list \<Rightarrow> emitted_option list" where
  "queryOptions prevOption [] = []"
| "queryOptions prevOption (q # rest) =
     (let qBytes = map charCodeAt q;
          delta = 15 - prevOption
      in (15, queryOptionHeader delta (int (length qBytes)) @ qBytes) # queryOptions 15 rest)"

text \<open>\<open>if (queryPart)\<close> holds for a string that is not empty.\<close>

definition queries :: "string \<Rightarrow> string list" where
  "queries uri =
     (case queryPart uri of
        None \<Rightarrow> []
      | Some q \<Rightarrow> if q = [] then [] else filter (\<lambda>s. s \<noteq> []) (splitOn (CHR ''&'') q))"

definition emittedOptions :: "string \<Rightarrow> emitted_option list" where
  "emittedOptions uri =
     (let (pathOpts, prevOption) = pathOptions 0 (segments uri)
      in pathOpts @ [contentFormatOption prevOption] @ queryOptions 12 (queries uri))"

definition encodeOptions :: "string \<Rightarrow> int list" where
  "encodeOptions uri = concat (map snd (emittedOptions uri))"

text \<open>
  \<open>buildMessage\<close>. The payload is \<open>None\<close> for \<open>null\<close> (and any other value that fails the
  test \<open>if (payload)\<close>); \<open>cborEncode\<close> belongs to \<open>cbor.js\<close>, which is not part of the
  sources, and is a parameter.
\<close>

definition toUint8 :: "int \<Rightarrow> byte" where
  "toUint8 x = word_of_int x"

definition buildMessage ::
  "('p \<Rightarrow> byte list) \<Rightarrow> int \<Rightarrow> string \<Rightarrow> 'p option \<Rightarrow> int \<Rightarrow> byte list" where
  "buildMessage cborEncode method uri payload messageId =
     (let header = [64, method, (toInt32 messageId div 256) mod 256, toInt32 messageId mod 256]
                   @ encodeOptions uri
      in map toUint8 header @
         (case payload of None \<Rightarrow> [] | Some p \<Rightarrow> 0xFF # cborEncode p))"

section \<open>Request tracker (CoAPClient.request, parseResponse, handleResponse)\<close>

subsection \<open>Transport (WebSerialConnection.sendBytes, js/pages.js)\<close>

text \<open>
  \<open>sendBytes\<close> throws \<open>Not connected\<close> when the port is missing or not writable, and
  otherwise rethrows whatever \<open>writer.write\<close> rejects with. The connection is a record of
  these two facts and of the frames written so far.
\<close>

record connection =
  writable :: bool
  write_rejects :: "string option"
  written :: "byte list list"

definition sendBytes :: "connection \<Rightarrow> byte list \<Rightarrow> string + connection" where
  "sendBytes conn bytes =
     (if \<not> writable conn then Inl ''Not connected''
      else (case write_rejects conn of
              Some e \<Rightarrow> Inl e
            | None \<Rightarrow> Inr (conn\<lparr>written := written conn @ [bytes]\<rparr>)))"

subsection \<open>The client's state\<close>

text \<open>An entry of \<open>pendingRequests\<close>: its \<open>resolve\<close> and \<open>reject\<close> belong to the promise
  of the request with that key, so the entry keeps the \<open>meta\<close> object only.\<close>

record 'p pending_meta =
  m_method :: int
  m_uri :: string
  m_payload :: "'p option"

record 'p client =
  messageId :: int
  token :: int
  pendingRequests :: "int \<rightharpoonup> 'p pending_meta"
  connection :: connection

definition constructor :: "connection \<Rightarrow> 'p client" where
  "constructor conn =
     \<lparr> messageId = 1, token = 1, pendingRequests = Map.empty, connection = conn \<rparr>"

definition RESPONSE_CODES :: "int \<rightharpoonup> string" where
  "RESPONSE_CODES =
     [201 \<mapsto> ''Created'', 202 \<mapsto> ''Deleted'', 203 \<mapsto> ''Valid'', 204 \<mapsto> ''Changed'',
      205 \<mapsto> ''Content'', 400 \<mapsto> ''Bad Request'', 401 \<mapsto> ''Unauthorized'',
      404 \<mapsto> ''Not Found'', 405 \<mapsto> ''Method Not Allowed'',
      500 \<mapsto> ''Internal Server Error'']"

subsection \<open>request\<close>

text \<open>
  \<open>request\<close> allocates \<open>this.messageId++\<close>, builds the message and the frame, stores the
  entry (the promise executor runs at once), and then awaits \<open>sendBytes\<close>. It ends with
  the transport's error, or with the promise of the request, named here by its key.
  The timer of 10 seconds is the separate step \<open>timeoutFires\<close>.
\<close>

definition request ::
  "('p \<Rightarrow> byte list) \<Rightarrow> int \<Rightarrow> string \<Rightarrow> 'p option \<Rightarrow> 'p client \<Rightarrow> (string + int) \<times> 'p client" where
  "request cborEncode method uri payload c =
     (let mid = messageId c;
          c = c\<lparr>messageId := mid + 1\<rparr>;
          message = buildMessage cborEncode method uri payload mid;
          frame = createCoapFrame message;
          c = c\<lparr>pendingRequests := (pendingRequests c)
                 (mid \<mapsto> \<lparr> m_method = method, m_uri = uri, m_payload = payload \<rparr>)\<rparr>
      in (case sendBytes (connection c) frame of
            Inl e \<Rightarrow> (Inl e, c)
          | Inr conn \<Rightarrow> (Inr mid, c\<lparr>connection := conn\<rparr>)))"

subsection \<open>Settling a promise\<close>

text \<open>The payload of a response: \<open>null\<close>, the value \<open>cborDecode\<close> returns, or the raw
  bytes when \<open>cborDecode\<close> throws.\<close>

datatype 'v payload = Null | Decoded 'v | RawBytes "byte list"

text \<open>The \<open>Error\<close> a promise is rejected with: its message, and the properties \<open>code\<close> and
  \<open>payload\<close> when \<open>handleResponse\<close> sets them.\<close>

record 'v coap_error =
  e_message :: string
  e_code :: "int option"
  e_payload :: "'v payload"

datatype 'v settlement = Resolved "'v payload" | Rejected "'v coap_error"


subsection \<open>parseResponse\<close>

record 'v coap_response =
  r_version :: int
  r_type :: int
  r_code :: int
  r_messageId :: int
  r_token :: int
  r_payload :: "'v payload"

text \<open>The token loop: \<open>token = (token << 8) | data[offset++]\<close>, where a read outside the
  array gives \<open>undefined\<close>, which \<open>|\<close> takes as 0.\<close>

fun readToken :: "byte list \<Rightarrow> nat \<Rightarrow> nat \<Rightarrow> int \<Rightarrow> int" where
  "readToken data offset 0 tok = tok"
| "readToken data offset (Suc n) tok =
     readToken data (Suc offset) n
       (toInt32 (toInt32 (tok * 256) +
          (case at data (int offset) of Some b \<Rightarrow> uint b | None \<Rightarrow> 0)))"

definition parseResponse :: "(byte list \<Rightarrow> 'v option) \<Rightarrow> byte list \<Rightarrow> 'v coap_response option" where
  "parseResponse cborDecode data =
     (if length data < 4 then None
      else
        let tokenLength = unat (data ! 0) mod 16;
            offset = 4 + tokenLength;
            marker = indexOf data 0xFF offset;
            payloadStart = (if marker = - 1 then length data else nat marker + 1);
            payload =
              (if payloadStart < length data
               then (case cborDecode (drop payloadStart data) of
                       Some v \<Rightarrow> Decoded v
                     | None \<Rightarrow> RawBytes (drop payloadStart data))
               else Null)
        in Some \<lparr> r_version = (uint (data ! 0) div 64) mod 4,
                  r_type = (uint (data ! 0) div 16) mod 4,
                  r_code = uint (data ! 1),
                  r_messageId = uint (data ! 2) * 256 + uint (data ! 3),
                  r_token = readToken data 4 tokenLength 0,
                  r_payload = payload \<rparr>)"

subsection \<open>handleResponse\<close>

text \<open>\<open>n.toString()\<close> of a non-negative integer, as the template \<open>`Error ${response.code}`\<close>
  prints it.\<close>

definition decimalDigit :: "nat \<Rightarrow> char" where
  "decimalDigit d = ''0123456789'' ! d"

fun toDecimal :: "nat \<Rightarrow> string" where
  "toDecimal n = (if n < 10 then [decimalDigit n] else toDecimal (n div 10) @ [decimalDigit (n mod 10)])"

declare toDecimal.simps [simp del]

text \<open>
  \<open>handleResponse\<close> returns the client's new state and how it settles which promise, if
  any. An exception of \<open>parseResponse\<close> is caught and logged, and changes nothing.
\<close>

definition handleResponse ::
  "(byte list \<Rightarrow> 'v option) \<Rightarrow> byte list \<Rightarrow> 'p client \<Rightarrow> 'p client \<times> (int \<times> 'v settlement) option" where
  "handleResponse cborDecode data c =
     (case parseResponse cborDecode data of
        None \<Rightarrow> (c, None)
      | Some response \<Rightarrow>
          (case pendingRequests c (r_messageId response) of
             None \<Rightarrow> (c, None)
           | Some pending \<Rightarrow>
               let c = c\<lparr>pendingRequests := (pendingRequests c)(r_messageId response := None)\<rparr>;
                   responseClass = r_code response div 32
               in if responseClass = 2
                  then (c, Some (r_messageId response, Resolved (r_payload response)))
                  else (c, Some (r_messageId response, Rejected
                         \<lparr> e_message = (case RESPONSE_CODES (r_code response) of
                                          Some reason \<Rightarrow> reason
                                        | None \<Rightarrow> ''Error '' @ toDecimal (nat (r_code response))),
                           e_code = Some (r_code response),
                           e_payload = r_payload response \<rparr>))))"






text \<open>An open connection on which nothing was written yet.\<close>

definition conn0 :: connection where
  "conn0 = \<lparr> writable = True, write_rejects = None, written = [] \<rparr>"

section \<open>Event emitter (LAN966xController.on, once, off, emit)\<close>

















section \<open>Announcement parsing (MUP1Protocol.parseAnnouncement)\<close>

text \<open>
  \<open>parseAnnouncement\<close> works on the string that \<open>TextDecoder.decode\<close> returns, which for
  an ASCII payload is the payload; it is a string of 8-bit characters here, that is of
  code units below 256. The white space of \<open>trim\<close> and of \<open>\s\<close> in that range is tab, line
  feed, vertical tab, form feed, carriage return, space and the no-break space \<open>U+00A0\<close>.
\<close>

definition isSpace :: "char \<Rightarrow> bool" where
  "isSpace c \<longleftrightarrow> c = CHR 0x09 \<or> c = CHR 0x0A \<or> c = CHR 0x0B \<or> c = CHR 0x0C \<or> c = CHR 0x0D
     \<or> c = CHR '' '' \<or> c = CHR 0xA0"

definition trim :: "string \<Rightarrow> string" where
  "trim s = rev (dropWhile isSpace (rev (dropWhile isSpace s)))"

definition startsWith :: "string \<Rightarrow> string \<Rightarrow> bool" where
  "startsWith s p \<longleftrightarrow> take (length p) s = p"

text \<open>\<open>text.split(/\s+/)\<close>: every run of white space splits, and a run at the start or at
  the end leaves an empty piece there.\<close>

lemma dropWhile_hd_shorter: "xs \<noteq> [] \<Longrightarrow> P (hd xs) \<Longrightarrow> length (dropWhile P xs) < length xs"
  by (cases xs) (simp_all add: length_dropWhile_le le_imp_less_Suc)

function splitWs :: "string \<Rightarrow> string list" where
  "splitWs s =
     (let tok = takeWhile (\<lambda>c. \<not> isSpace c) s;
          rest = dropWhile (\<lambda>c. \<not> isSpace c) s
      in if rest = [] then [tok] else tok # splitWs (dropWhile isSpace rest))"
  by pat_completeness auto
termination
proof (relation "measure length", goal_cases)
  case 1
  show ?case by simp
next
  case (2 s tok rest)
  then have ne: "dropWhile (\<lambda>c. \<not> isSpace c) s \<noteq> []" by simp
  from hd_dropWhile [OF ne] have "isSpace (hd (dropWhile (\<lambda>c. \<not> isSpace c) s))" by simp
  from dropWhile_hd_shorter [OF ne, of isSpace, OF this]
  have "length (dropWhile isSpace (dropWhile (\<lambda>c. \<not> isSpace c) s))
      < length (dropWhile (\<lambda>c. \<not> isSpace c) s)" .
  also have "\<dots> \<le> length s" by (rule length_dropWhile_le)
  finally show ?case using 2 by simp
qed

declare splitWs.simps [simp del]

text \<open>\<open>const [front, p1, p2, p3] = text.split(/\s+/)\<close>: only \<open>front\<close> is read.\<close>

definition firstToken :: "string \<Rightarrow> string" where
  "firstToken text = (case splitWs text of front # _ \<Rightarrow> front | [] \<Rightarrow> [])"

text \<open>\<open>parts[1].replace(/^v/, '')\<close>.\<close>

definition stripLeadingV :: "string \<Rightarrow> string" where
  "stripLeadingV s = (case s of c # cs \<Rightarrow> if c = CHR ''v'' then cs else s | [] \<Rightarrow> [])"

record device_info =
  deviceType :: string
  firmwareVersion :: string
  serialNumber :: string

definition parseAnnouncement :: "string \<Rightarrow> device_info" where
  "parseAnnouncement data =
     (let text = trim data in
      if startsWith text ''VelocitySP-v'' then
        let front = firstToken text;
            parts = splitOn (CHR ''-'') front
        in if length parts \<ge> 4
           then \<lparr> deviceType = parts ! 2, firmwareVersion = stripLeadingV (parts ! 1),
                  serialNumber = parts ! 3 \<rparr>
           else \<lparr> deviceType = front, firmwareVersion = ''Unknown'', serialNumber = ''Unknown'' \<rparr>
      else \<lparr> deviceType = text, firmwareVersion = ''Unknown'', serialNumber = ''Unknown'' \<rparr>)"

section \<open>Evaluating the codec\<close>

lemma checksum_ping_frame: "calculateChecksum [0x3E, 0x50, 0x3C] = 0x85AF"
  by (simp add: calculateChecksum_def foldCarry.simps toInt32_def)

lemma checksumString_85AF: "checksumString 0x85AF = ''85AF''"
  by (simp add: checksumString_def padStart_def toHexUpper.simps hexUpper_def)

lemma encodeFrame_ping: "encodeFrame 0x50 [] = [0x3E, 0x50, 0x3C, 0x38, 0x35, 0x41, 0x46]"
  by (simp add: encodeFrame_def SOF_def EOF_def checksum_ping_frame checksumString_85AF
      charCode_def)

lemma decodeFrame_ping: "decodeFrame [0x3E, 0x50, 0x3C, 0x38, 0x35, 0x41, 0x46] = Inl FrameTooShort"
  by (simp add: decodeFrame_def)

text \<open>
  C2. The claim expects the ping frame \<open>3E 50 3C 3C 38 35 37 33\<close>. In \<open>encodeFrame\<close> the
  array holds SOF, the type and the first EOF when its length is tested, the length 3 is
  odd and the test \<open>frame.length % 2 === 0\<close> fails: no second EOF is pushed, the
  checksum is taken over \<open>3E 50 3C\<close> (the last byte padded to the word \<open>3C00\<close>), and the
  frame has seven bytes, one less than the shortest frame \<open>decodeFrame\<close> accepts.
\<close>

theorem encodeFrame_ping_bytes:
  "createPing = [0x3E, 0x50, 0x3C, 0x38, 0x35, 0x41, 0x46]
   \<and> encodeFrame 0x50 [] = [0x3E, 0x50, 0x3C, 0x38, 0x35, 0x41, 0x46]
   \<and> decodeFrame (encodeFrame 0x50 []) = Inl FrameTooShort"
  by (simp add: createPing_def encodeFrame_ping decodeFrame_ping)

lemma checksum_zero_frame: "calculateChecksum [0x3E, 0x43, 0x5C, 0x30, 0x3C] = 0x298C"
  by (simp add: calculateChecksum_def foldCarry.simps toInt32_def)

lemma checksumString_298C: "checksumString 0x298C = ''298C''"
  by (simp add: checksumString_def padStart_def toHexUpper.simps hexUpper_def)

lemma encodeFrame_zero_payload:
  "encodeFrame 0x43 [0x00] = [0x3E, 0x43, 0x5C, 0x30, 0x3C, 0x32, 0x39, 0x38, 0x43]"
  by (simp add: encodeFrame_def SOF_def EOF_def needsEscape_def ESCAPE_MAP_def ESCAPE_def
      checksum_zero_frame checksumString_298C charCode_def)

lemma unescapeByte_0x30: "unescapeByte 0x30 = 0x30"
  by (simp add: unescapeByte_def reverseMap_def)

lemma decodeFrame_zero_frame:
  "decodeFrame [0x3E, 0x43, 0x5C, 0x30, 0x3C, 0x32, 0x39, 0x38, 0x43] =
     Inr \<lparr> d_type = CHR ''C'', d_data = [0x30], d_checksum = ''298C'',
            d_mismatch_warned = False \<rparr>"
  by (simp add: decodeFrame_def SOF_def EOF_def ESCAPE_def unescapeByte_0x30 indexOf_def
      at_def fromCharCode_def checksum_zero_frame checksumString_298C char_of_eq_iff)

text \<open>
  C1. The round trip fails on the payload that consists of the single byte \<open>0x00\<close>: it is
  sent as \<open>5C 30\<close>, and \<open>unescapeByte\<close> answers \<open>0x30\<close> for \<open>0x30\<close>, because the entry
  \<open>0x30 \<rightarrow> 0x00\<close> of its table is the number 0 and \<open>||\<close> then takes the byte itself. The
  decoded payload is \<open>[0x30]\<close>, with a matching checksum and no warning.
\<close>

theorem decodeFrame_encodeFrame_zero_byte:
  "decodeFrame (encodeFrame 0x43 [0x00]) =
     Inr \<lparr> d_type = CHR ''C'', d_data = [0x30], d_checksum = ''298C'',
            d_mismatch_warned = False \<rparr>"
  by (simp only: encodeFrame_zero_payload decodeFrame_zero_frame)

section \<open>The reassembler and escaped EOF bytes\<close>

lemma escapeData_append: "escapeData (xs @ ys) = escapeData xs @ escapeData ys"
  by (induction xs) auto

lemma escapeData_no_EOF: "0x3C \<notin> set pre \<Longrightarrow> 0x3C \<notin> set (escapeData pre)"
  by (induction pre) (auto simp: needsEscape_def ESCAPE_MAP_def ESCAPE_def)

lemma escapeData_EOF: "escapeData (0x3C # post) = 0x5C # 0x3C # escapeData post"
  by (simp add: needsEscape_def ESCAPE_MAP_def ESCAPE_def)

lemma escapeData_hd: "post \<noteq> [] \<Longrightarrow> \<exists>b bs. escapeData post = b # bs \<and> b \<noteq> 0x3C"
  by (cases post) (auto simp: needsEscape_def ESCAPE_MAP_def ESCAPE_def)

lemma indexOfAux_append:
  "x \<notin> set xs \<Longrightarrow> indexOfAux x (xs @ x # ys) i = int (i + length xs)"
  by (induction xs arbitrary: i) auto

lemma length_checksumString: "4 \<le> length (checksumString c)"
  by (simp add: checksumString_def padStart_def)

lemma extractFrames_first:
  assumes A: "0x3C \<notin> set A" and b: "b \<noteq> 0x3C" and B: "3 \<le> length B"
  shows "\<exists>frames rest. extractFrames (0x3E # A @ 0x3C # b # B) =
           (take (length A + 6) (0x3E # A @ 0x3C # b # B) # frames, rest)"
proof -
  let ?buf = "0x3E # A @ 0x3C # b # B"
  have s: "indexOf ?buf 0x3E 0 = 0" by (simp add: indexOf_def)
  have "indexOfAux 0x3C ((0x3E # A) @ 0x3C # b # B) 0 = int (0 + length (0x3E # A))"
    using A by (intro indexOfAux_append) simp
  then have e: "indexOf ?buf 0x3C 0 = int (length A) + 1" by (simp add: indexOf_def)
  have a: "at ?buf (int (length A) + 1 + 1) = Some b"
    by (simp add: at_def nth_append nat_add_distrib)
  have l: "\<not> int (length ?buf) < int (length A) + 1 + 5" using B by simp
  obtain frames rest where r: "extractFrames (drop (length A + 6) ?buf) = (frames, rest)"
    by (cases "extractFrames (drop (length A + 6) ?buf)")
  have n: "nat (int (length A) + 1 + 5) = length A + 6" by simp
  have "extractFrames ?buf = (slice ?buf 0 (int (length A) + 1 + 5) # frames, rest)"
    apply (subst extractFrames.simps)
    apply (simp only: Let_def s e a nat_0 )
    using b l r n apply (simp add: )
    done
  moreover have "slice ?buf 0 (int (length A) + 1 + 5) = take (length A + 6) ?buf"
    unfolding slice_def n by simp
  ultimately show ?thesis by simp
qed

lemma encodeFrame_shape:
  "\<exists>tail. encodeFrame t payload = 0x3E # t # escapeData payload @ 0x3C # tail \<and> 4 \<le> length tail"
proof -
  have "4 \<le> length (map charCode (checksumString c))" for c
    using length_checksumString [of c] by simp
  then have k: "4 \<le> length (map charCode (checksumString c))" for c .
  show ?thesis
  proof (cases "length ([SOF, t] @ escapeData payload @ [EOF]) mod 2 = 0")
    case True
    then have "encodeFrame t payload = 0x3E # t # escapeData payload @ 0x3C #
        (0x3C # map charCode (checksumString (calculateChecksum
          ([SOF, t] @ escapeData payload @ [EOF] @ [EOF]))))"
      by (simp add: encodeFrame_def Let_def SOF_def EOF_def)
    then show ?thesis using k by (metis le_SucI length_Cons)
  next
    case False
    then have "encodeFrame t payload = 0x3E # t # escapeData payload @ 0x3C #
        map charCode (checksumString (calculateChecksum ([SOF, t] @ escapeData payload @ [EOF])))"
      by (simp add: encodeFrame_def Let_def SOF_def EOF_def)
    then show ?thesis using k by blast
  qed
qed

text \<open>
  C10 (as amended). \<open>handleIncomingData\<close> ends a frame at the first raw \<open>0x3C\<close> after the
  SOF and does not honour escape sequences. For every frame type other than \<open>0x3C\<close> and
  every payload whose first byte \<open>0x3C\<close> is followed by at least one more payload byte,
  pushing the complete frame written by \<open>encodeFrame\<close> into an empty buffer hands the
  callback, as its first slice, the frame cut four bytes after the escaped \<open>0x3C\<close>: a
  proper prefix of the encoded frame, strictly shorter than it.
\<close>

theorem handleIncomingData_cuts_at_escaped_EOF:
  assumes t: "t \<noteq> 0x3C" and pre: "0x3C \<notin> set pre" and post: "post \<noteq> []"
  shows "\<exists>frames rest.
           handleIncomingData [] (encodeFrame t (pre @ 0x3C # post)) =
             (take (length (escapeData pre) + 8) (encodeFrame t (pre @ 0x3C # post)) # frames, rest)
           \<and> length (escapeData pre) + 8 < length (encodeFrame t (pre @ 0x3C # post))"
proof -
  obtain tail where F: "encodeFrame t (pre @ 0x3C # post) =
      0x3E # t # escapeData (pre @ 0x3C # post) @ 0x3C # tail" and tl: "4 \<le> length tail"
    using encodeFrame_shape by blast
  obtain b bs where p: "escapeData post = b # bs" and b: "b \<noteq> 0x3C"
    using escapeData_hd [OF post] by blast
  let ?A = "t # escapeData pre @ [0x5C]"
  let ?B = "bs @ 0x3C # tail"
  have F': "encodeFrame t (pre @ 0x3C # post) = 0x3E # ?A @ 0x3C # b # ?B"
    by (simp add: F escapeData_append needsEscape_def ESCAPE_MAP_def ESCAPE_def p)
  have A: "0x3C \<notin> set ?A" using t escapeData_no_EOF [OF pre] by simp
  have B: "3 \<le> length ?B" using tl by simp
  from extractFrames_first [OF A b B] obtain frames rest where
    ef: "extractFrames (0x3E # ?A @ 0x3C # b # ?B) =
           (take (length ?A + 6) (0x3E # ?A @ 0x3C # b # ?B) # frames, rest)"
    by blast
  have len: "length ?A + 6 = length (escapeData pre) + 8" by simp
  have "handleIncomingData [] (encodeFrame t (pre @ 0x3C # post)) =
             (take (length (escapeData pre) + 8) (encodeFrame t (pre @ 0x3C # post)) # frames, rest)"
    by (simp only: handleIncomingData_def append_Nil F' ef [unfolded len])
  moreover have "length (escapeData pre) + 8 < length (encodeFrame t (pre @ 0x3C # post))"
    unfolding F' using tl by simp
  ultimately show ?thesis by blast
qed

lemma checksum_EOF_A: "calculateChecksum [0x3E, 0x43, 0x5C, 0x3C, 0x41, 0x3C, 0x3C] = 0xE843"
  by (simp add: calculateChecksum_def foldCarry.simps toInt32_def)

lemma checksumString_E843: "checksumString 0xE843 = ''E843''"
  by (simp add: checksumString_def padStart_def toHexUpper.simps hexUpper_def)

lemma encodeFrame_EOF_A: "encodeFrame 0x43 [0x3C, 0x41] = [62, 67, 92, 60, 65, 60, 60, 69, 56, 52, 51]"
  by (simp add: encodeFrame_def SOF_def EOF_def needsEscape_def ESCAPE_MAP_def ESCAPE_def
      checksum_EOF_A checksumString_E843 charCode_def)

theorem handleIncomingData_cuts_at_escaped_EOF_witness:
  "(0x43 :: byte) \<noteq> 0x3C \<and> (0x3C :: byte) \<notin> set [] \<and> [0x41 :: byte] \<noteq> [] \<and>
   (\<exists>frames rest.
      handleIncomingData [] (encodeFrame 0x43 [0x3C, 0x41]) =
        ([0x3E, 0x43, 0x5C, 0x3C, 0x41, 0x3C, 0x3C, 0x45] # frames, rest)
      \<and> 8 < length (encodeFrame 0x43 [0x3C, 0x41]))"
  using handleIncomingData_cuts_at_escaped_EOF [of "0x43" "[]" "[0x41]"]
  by (simp add: encodeFrame_EOF_A)


lemma checksum_EOF_only: "calculateChecksum [0x3E, 0x43, 0x5C, 0x3C, 0x3C] = 0x2980"
  by (simp add: calculateChecksum_def foldCarry.simps toInt32_def)

lemma checksumString_2980: "checksumString 0x2980 = ''2980''"
  by (simp add: checksumString_def padStart_def toHexUpper.simps hexUpper_def)

lemma encodeFrame_EOF_only:
  "encodeFrame 0x43 [0x3C] = [0x3E, 0x43, 0x5C, 0x3C, 0x3C, 0x32, 0x39, 0x38, 0x30]"
  by (simp add: encodeFrame_def SOF_def EOF_def needsEscape_def ESCAPE_MAP_def ESCAPE_def
      checksum_EOF_only checksumString_2980 charCode_def)

lemma extractFrames_Nil: "extractFrames [] = ([], [])"
  by (simp add: extractFrames.simps indexOf_def)

lemma extractFrames_EOF_only:
  "extractFrames [0x3E, 0x43, 0x5C, 0x3C, 0x3C, 0x32, 0x39, 0x38, 0x30] =
     ([[0x3E, 0x43, 0x5C, 0x3C, 0x3C, 0x32, 0x39, 0x38, 0x30]], [])"
  by (subst extractFrames.simps) (simp add: indexOf_def at_def slice_def extractFrames_Nil)

text \<open>
  The claim as stated names every payload that contains a byte escaped to a pair ending
  in \<open>0x3C\<close>. For the one-byte payload \<open>[0x3C]\<close> the escaped \<open>0x3C\<close> is followed by the EOF,
  the reassembler reads the two as a double EOF, and the slice is the whole frame.
\<close>

theorem handleIncomingData_escaped_EOF_last_counterexample:
  "handleIncomingData [] (encodeFrame 0x43 [0x3C]) = ([encodeFrame 0x43 [0x3C]], [])
   \<and> \<not> length (hd (fst (handleIncomingData [] (encodeFrame 0x43 [0x3C]))))
         < length (encodeFrame 0x43 [0x3C])"
  by (simp add: handleIncomingData_def encodeFrame_EOF_only extractFrames_EOF_only)

section \<open>More on the round trip of a frame\<close>

lemma checksum_A_padded: "calculateChecksum [0x3E, 0x43, 0x41, 0x3C, 0x3C] = 0x4480"
  by (simp add: calculateChecksum_def foldCarry.simps toInt32_def)

lemma checksum_A_first_EOF: "calculateChecksum [0x3E, 0x43, 0x41, 0x3C] = 0x8080"
  by (simp add: calculateChecksum_def foldCarry.simps toInt32_def)

lemma checksumString_4480: "checksumString 0x4480 = ''4480''"
  by (simp add: checksumString_def padStart_def toHexUpper.simps hexUpper_def)

lemma checksumString_8080: "checksumString 0x8080 = ''8080''"
  by (simp add: checksumString_def padStart_def toHexUpper.simps hexUpper_def)

lemma encodeFrame_A:
  "encodeFrame 0x43 [0x41] = [0x3E, 0x43, 0x41, 0x3C, 0x3C, 0x34, 0x34, 0x38, 0x30]"
  by (simp add: encodeFrame_def SOF_def EOF_def needsEscape_def checksum_A_padded
      checksumString_4480 charCode_def)

text \<open>A frame with a padding EOF: the encoder sums up to the second EOF, the decoder up
  to the first, and the decoder logs a mismatch.\<close>

lemma decodeFrame_padded_frame_warns:
  "decodeFrame (encodeFrame 0x43 [0x41]) =
     Inr \<lparr> d_type = CHR ''C'', d_data = [0x41], d_checksum = ''4480'',
            d_mismatch_warned = True \<rparr>"
  unfolding encodeFrame_A
  by (simp add: decodeFrame_def SOF_def EOF_def ESCAPE_def indexOf_def at_def fromCharCode_def
      checksum_A_first_EOF checksumString_8080 char_of_eq_iff)

lemma checksum_escaped_EOF_cut: "calculateChecksum [0x3E, 0x43, 0x5C, 0x3C] = 0x6580"
  by (simp add: calculateChecksum_def foldCarry.simps toInt32_def)

lemma checksumString_6580: "checksumString 0x6580 = ''6580''"
  by (simp add: checksumString_def padStart_def toHexUpper.simps hexUpper_def)

text \<open>An escaped \<open>0x3C\<close>: the decoding loop tests for EOF before it looks at \<open>escaping\<close>,
  and the payload ends there.\<close>

lemma decodeFrame_escaped_EOF_ends_payload:
  "decodeFrame (encodeFrame 0x43 [0x3C, 0x41]) =
     Inr \<lparr> d_type = CHR ''C'', d_data = [], d_checksum = ''A<<E'',
            d_mismatch_warned = True \<rparr>"
  unfolding encodeFrame_EOF_A
  by (simp add: decodeFrame_def SOF_def EOF_def ESCAPE_def indexOf_def at_def fromCharCode_def
      checksum_escaped_EOF_cut checksumString_6580 char_of_eq_iff)

text \<open>The checksum is written as exactly four characters, so a frame without payload
  has seven bytes, which \<open>decodeFrame\<close> refuses.\<close>

lemma length_toHexUpper: "0 < k \<Longrightarrow> n < 16 ^ k \<Longrightarrow> length (toHexUpper n) \<le> k"
proof (induction k arbitrary: n)
  case 0
  then show ?case by simp
next
  case (Suc k)
  show ?case
  proof (cases "n < 16")
    case True
    then show ?thesis by (simp add: toHexUpper.simps [of n])
  next
    case False
    with Suc.prems have k: "0 < k" by (cases k) simp_all
    have "n div 16 < 16 ^ k" using Suc.prems by (simp add: less_mult_imp_div_less mult.commute)
    from Suc.IH [OF k this] False show ?thesis by (simp add: toHexUpper.simps [of n])
  qed
qed

lemma calculateChecksum_range: "0 \<le> calculateChecksum data \<and> calculateChecksum data < 65536"
  by (simp add: calculateChecksum_def)

lemma length_checksumString_checksum: "length (checksumString (calculateChecksum data)) = 4"
proof -
  have "nat (calculateChecksum data) < 65536"
    using calculateChecksum_range [of data] by linarith
  then have "nat (calculateChecksum data) < 16 ^ 4" by simp
  then have "length (toHexUpper (nat (calculateChecksum data))) \<le> 4"
    by (intro length_toHexUpper) simp_all
  then show ?thesis by (simp add: checksumString_def padStart_def)
qed

lemma decodeFrame_empty_payload: "decodeFrame (encodeFrame t []) = Inl FrameTooShort"
  by (simp add: decodeFrame_def encodeFrame_def Let_def length_checksumString_checksum)

text \<open>What does hold of the round trip: a payload that is not empty and has no byte
  \<open>0x00\<close> and no byte \<open>0x3C\<close> is decoded to itself, under the type it was sent with.\<close>

lemma decodeLoop_escapeData:
  "0x00 \<notin> set p \<Longrightarrow> 0x3C \<notin> set p \<Longrightarrow> decodeLoop (escapeData p @ EOF # rest) False = p"
proof (induction p)
  case Nil
  show ?case by simp
next
  case (Cons b bs)
  then have ih: "decodeLoop (escapeData bs @ EOF # rest) False = bs" by simp
  from Cons.prems have b: "b \<noteq> 0x00" "b \<noteq> 0x3C" by auto
  show ?case
  proof (cases "needsEscape b")
    case True
    with b have "b = 0xFF \<or> b = 0x3E \<or> b = 0x5C" by (simp add: needsEscape_def)
    then show ?thesis
      by (auto simp: ih [unfolded EOF_def] needsEscape_def ESCAPE_MAP_def ESCAPE_def EOF_def
          unescapeByte_def reverseMap_def)
  next
    case False
    then have "b \<noteq> EOF" "b \<noteq> ESCAPE" by (auto simp: needsEscape_def EOF_def ESCAPE_def)
    with False show ?thesis by (simp add: ih)
  qed
qed

lemma decodeFrame_encodeFrame_payload:
  assumes ne: "p \<noteq> []" and z: "0x00 \<notin> set p" and e: "0x3C \<notin> set p"
  shows "\<exists>cs w. decodeFrame (encodeFrame t p) =
           Inr \<lparr> d_type = char_of (unat t), d_data = p, d_checksum = cs, d_mismatch_warned = w \<rparr>"
proof -
  define pad where "pad = (if length ([SOF, t] @ escapeData p @ [EOF]) mod 2 = 0 then [EOF] else [])"
  define cks where "cks = map charCode (checksumString (calculateChecksum
      ([SOF, t] @ escapeData p @ [EOF] @ pad)))"
  have F: "encodeFrame t p = SOF # t # escapeData p @ EOF # pad @ cks"
    by (simp add: encodeFrame_def Let_def pad_def cks_def)
  have c4: "length cks = 4" by (simp add: cks_def length_checksumString_checksum)
  have esc: "escapeData p \<noteq> []" using ne by (cases p) (auto split: option.splits)
  then have len: "8 \<le> length (encodeFrame t p)"
    using c4 by (cases "escapeData p") (simp_all add: F)
  have tk: "take (length (encodeFrame t p) - 4 - 2) (drop 2 (encodeFrame t p))
      = escapeData p @ EOF # pad"
    by (simp add: F c4)
  have dl: "decodeLoop (escapeData p @ EOF # pad) False = p"
    by (rule decodeLoop_escapeData [OF z e])
  have hd: "encodeFrame t p ! 0 = SOF" "encodeFrame t p ! 1 = t"
    by (simp_all add: F)
  show ?thesis
    unfolding decodeFrame_def Let_def tk dl hd using len by simp
qed

section \<open>The request tracker\<close>


lemma request_pending:
  "pendingRequests (snd (request enc m u p c)) =
     (pendingRequests c)(messageId c \<mapsto> \<lparr> m_method = m, m_uri = u, m_payload = p \<rparr>)"
  by (simp add: request_def Let_def split: sum.splits)

























lemma parseResponse_not_found:
  "parseResponse dec [0x60, 0x84, 0x00, 0x01] =
     Some \<lparr> r_version = 1, r_type = 2, r_code = 132, r_messageId = 1, r_token = 0,
            r_payload = Null \<rparr>"
  by (simp add: parseResponse_def Let_def indexOf_def)

lemma toDecimal_132: "toDecimal 132 = ''132''"
  by (simp add: toDecimal.simps decimalDigit_def)

text \<open>
  C4. A response with the code byte \<open>0x84\<close> (4.04) for the pending message-id 1 rejects
  the promise of that request within \<open>handleResponse\<close>, with the code 132 attached; the
  message of the error is \<open>Error 132\<close>, not \<open>Not Found\<close>: the table \<open>RESPONSE_CODES\<close> has
  the key 404, and it is read at the code byte 132.
\<close>

theorem handleResponse_not_found_reason:
  "handleResponse dec [0x60, 0x84, 0x00, 0x01] (snd (request enc 1 uri None (constructor conn))) =
     ((snd (request enc 1 uri None (constructor conn)))\<lparr>pendingRequests := Map.empty\<rparr>,
      Some (1, Rejected \<lparr> e_message = ''Error 132'', e_code = Some 132, e_payload = Null \<rparr>))"
  by (simp add: handleResponse_def parseResponse_not_found request_pending constructor_def
      RESPONSE_CODES_def toDecimal_132 Let_def)


text \<open>
  The claim as stated has the entry removed when the write fails. On a port that is not
  writable \<open>request\<close> ends with the error \<open>Not connected\<close> and the entry of message-id 1 is
  still in the pending map (only the timer removes it later).
\<close>

theorem request_failed_write_keeps_entry_counterexample:
  "request (\<lambda>_ :: unit. []) 1 ''/a'' None
       (constructor \<lparr> writable = False, write_rejects = None, written = [] \<rparr>) =
     (Inl ''Not connected'',
      \<lparr> messageId = 2, token = 1,
        pendingRequests = [1 \<mapsto> \<lparr> m_method = 1, m_uri = ''/a'', m_payload = None \<rparr>],
        connection = \<lparr> writable = False, write_rejects = None, written = [] \<rparr> \<rparr>)
   \<and> pendingRequests (snd (request (\<lambda>_ :: unit. []) 1 ''/a'' None
       (constructor \<lparr> writable = False, write_rejects = None, written = [] \<rparr>))) 1 \<noteq> None"
  by (simp add: request_def Let_def sendBytes_def constructor_def)

text \<open>
  C8 (as amended). \<open>request\<close> records the pending entry under the allocated message-id
  before it hands the frame to the transport, and the entry is in the map however the
  write ends. If the write fails, the caller of \<open>request\<close> gets the transport's error
  and nothing was written; if it succeeds, the caller gets the promise of that
  message-id and the frame is the last one written. A response with that message-id
  that is handled after \<open>request\<close> finds the entry, settles the promise and removes the
  entry.
\<close>

theorem request_registers_then_writes:
  "pendingRequests (snd (request enc m u p c)) (messageId c)
     = Some \<lparr> m_method = m, m_uri = u, m_payload = p \<rparr>
   \<and> (sendBytes (connection c) (createCoapFrame (buildMessage enc m u p (messageId c))) = Inl e \<longrightarrow>
        fst (request enc m u p c) = Inl e
        \<and> connection (snd (request enc m u p c)) = connection c)
   \<and> (sendBytes (connection c) (createCoapFrame (buildMessage enc m u p (messageId c))) = Inr conn \<longrightarrow>
        fst (request enc m u p c) = Inr (messageId c)
        \<and> written (connection (snd (request enc m u p c))) =
            written (connection c) @ [createCoapFrame (buildMessage enc m u p (messageId c))])
   \<and> (parseResponse dec data = Some r \<and> r_messageId r = messageId c \<longrightarrow>
        (\<exists>s. snd (handleResponse dec data (snd (request enc m u p c))) = Some (messageId c, s))
        \<and> pendingRequests (fst (handleResponse dec data (snd (request enc m u p c)))) (messageId c) = None)"
proof -
  have 1: "pendingRequests (snd (request enc m u p c)) (messageId c)
     = Some \<lparr> m_method = m, m_uri = u, m_payload = p \<rparr>"
    by (simp add: request_pending)
  have 2: "sendBytes (connection c) (createCoapFrame (buildMessage enc m u p (messageId c))) = Inl e \<longrightarrow>
        fst (request enc m u p c) = Inl e
        \<and> connection (snd (request enc m u p c)) = connection c"
    by (simp add: request_def Let_def)
  have 3: "sendBytes (connection c) (createCoapFrame (buildMessage enc m u p (messageId c))) = Inr conn \<longrightarrow>
        fst (request enc m u p c) = Inr (messageId c)
        \<and> written (connection (snd (request enc m u p c))) =
            written (connection c) @ [createCoapFrame (buildMessage enc m u p (messageId c))]"
    by (auto simp: request_def Let_def sendBytes_def split: if_splits option.splits)
  have 4: "parseResponse dec data = Some r \<and> r_messageId r = messageId c \<longrightarrow>
        (\<exists>s. snd (handleResponse dec data (snd (request enc m u p c))) = Some (messageId c, s))
        \<and> pendingRequests (fst (handleResponse dec data (snd (request enc m u p c)))) (messageId c) = None"
    by (auto simp: handleResponse_def Let_def request_pending)
  show ?thesis using 1 2 3 4 by blast
qed


theorem request_registers_then_writes_witness:
  "sendBytes (connection (constructor \<lparr> writable = False, write_rejects = None, written = [] \<rparr> :: unit client))
       (createCoapFrame (buildMessage (\<lambda>_ :: unit. []) 1 ''/a'' None 1)) = Inl ''Not connected''
   \<and> fst (request (\<lambda>_ :: unit. []) 1 ''/a'' None
          (constructor \<lparr> writable = False, write_rejects = None, written = [] \<rparr>))
       = Inl ''Not connected''
   \<and> fst (request (\<lambda>_ :: unit. []) 1 ''/a'' None (constructor conn0)) = Inr 1
   \<and> (\<exists>s. snd (handleResponse (\<lambda>_. None :: unit option) [0x60, 0x45, 0x00, 0x01]
              (snd (request (\<lambda>_ :: unit. []) 1 ''/a'' None (constructor conn0)))) = Some (1, s))"
proof -
  let ?enc = "\<lambda>_ :: unit. [] :: byte list" and ?dec = "\<lambda>_ :: byte list. None :: unit option"
  let ?cF = "constructor \<lparr> writable = False, write_rejects = None, written = [] \<rparr> :: unit client"
  let ?frame = "createCoapFrame (buildMessage ?enc 1 ''/a'' None 1)"
  let ?r = "\<lparr> r_version = 1, r_type = 2, r_code = 69, r_messageId = 1, r_token = 0,
             r_payload = Null :: unit payload \<rparr>"
  have f: "sendBytes (connection ?cF) ?frame = Inl ''Not connected''"
    by (simp add: sendBytes_def constructor_def)
  have f': "sendBytes (connection ?cF) (createCoapFrame (buildMessage ?enc 1 ''/a'' None (messageId ?cF)))
      = Inl ''Not connected''"
    by (simp add: sendBytes_def constructor_def)
  have g: "sendBytes (connection (constructor conn0 :: unit client))
      (createCoapFrame (buildMessage ?enc 1 ''/a'' None (messageId (constructor conn0 :: unit client))))
      = Inr (conn0\<lparr>written := [?frame]\<rparr>)"
    by (simp add: sendBytes_def constructor_def conn0_def)
  have p: "parseResponse ?dec [0x60, 0x45, 0x00, 0x01] = Some ?r
      \<and> r_messageId ?r = messageId (constructor conn0 :: unit client)"
    by (simp add: parseResponse_def Let_def indexOf_def constructor_def)
  note A = request_registers_then_writes [of ?enc 1 "''/a''" None ?cF "''Not connected''"]
  note B = request_registers_then_writes [of ?enc 1 "''/a''" None "constructor conn0" _
      "conn0\<lparr>written := [?frame]\<rparr>" ?dec "[0x60, 0x45, 0x00, 0x01]" ?r]
  have 1: "fst (request ?enc 1 ''/a'' None ?cF) = Inl ''Not connected''"
    using A [THEN conjunct2, THEN conjunct1, THEN mp, OF f'] by simp
  have 2: "fst (request ?enc 1 ''/a'' None (constructor conn0)) = Inr 1"
    using B [THEN conjunct2, THEN conjunct2, THEN conjunct1, THEN mp, OF g]
    by (simp add: constructor_def)
  have 3: "\<exists>s. snd (handleResponse ?dec [0x60, 0x45, 0x00, 0x01]
              (snd (request ?enc 1 ''/a'' None (constructor conn0)))) = Some (1, s)"
    using B [THEN conjunct2, THEN conjunct2, THEN conjunct2, THEN mp, OF p]
    by (simp add: constructor_def)
  show ?thesis using f 1 2 3 by blast
qed

section \<open>The options of a built message\<close>

lemma segments_port0:
  "segments ''/ietf-interfaces:interfaces/interface[name='eth0']'' =
     [''ietf-interfaces:interfaces'', ''interface[name='eth0']'']"
  by (simp add: segments_def pathPart_def)

lemma pathOptions_numbers: "map fst (fst (pathOptions p segs)) = replicate (length segs) 11"
  by (induction segs arbitrary: p) (simp_all add: Let_def case_prod_beta)

lemma pathOptions_length: "length (fst (pathOptions p segs)) = length segs"
  by (induction segs arbitrary: p) (simp_all add: Let_def case_prod_beta)

lemma pathOptions_prev: "snd (pathOptions p segs) = (if segs = [] then p else 11)"
  by (induction segs arbitrary: p) (simp_all add: Let_def case_prod_beta)

lemma queryOptions_numbers: "map fst (queryOptions p qs) = replicate (length qs) 15"
  by (induction qs arbitrary: p) (simp_all add: Let_def)

lemma emittedOptions_numbers:
  "map fst (emittedOptions uri) =
     replicate (length (segments uri)) 11 @ [12] @ replicate (length (queries uri)) 15"
  using pathOptions_numbers [of 0 "segments uri"]
  by (simp add: emittedOptions_def contentFormatOption_def queryOptions_numbers case_prod_beta)

lemma emittedOptions_sorted: "sorted (map fst (emittedOptions uri))"
  by (simp add: emittedOptions_numbers sorted_append)

lemma first_option_port0:
  "emittedOptions ''/ietf-interfaces:interfaces/interface[name='eth0']'' ! 0 =
     (11, [0xBD, 13] @ map charCodeAt ''ietf-interfaces:interfaces'')"
  by (simp add: emittedOptions_def segments_port0 pathOptionHeader_def Let_def case_prod_beta)

lemma second_option_port0:
  "emittedOptions ''/ietf-interfaces:interfaces/interface[name='eth0']'' ! 1 =
     (11, [9] @ map charCodeAt ''interface[name='eth0']'')"
  by (simp add: emittedOptions_def segments_port0 pathOptionHeader_def Let_def case_prod_beta)

lemma first_path_option:
  "segments uri = seg # rest \<Longrightarrow>
     emittedOptions uri ! 0 = (11, pathOptionHeader 11 (int (length seg)) @ map charCodeAt seg)"
  by (simp add: emittedOptions_def Let_def case_prod_beta)

lemma first_query_option:
  "queries uri = q # qs \<Longrightarrow>
     emittedOptions uri ! Suc (length (segments uri)) =
       (15, queryOptionHeader 3 (int (length q)) @ map charCodeAt q)"
  using pathOptions_length [of 0 "segments uri"]
  by (simp add: emittedOptions_def Let_def case_prod_beta nth_append)

lemma segments_handshake: "segments ''c?d=a'' = [''c'']"
  by (simp add: segments_def pathPart_def)

lemma queries_handshake: "queries ''c?d=a'' = [''d=a'']"
  by (simp add: queries_def queryPart_def)

text \<open>
  C3 (as amended). The path of \<open>/ietf-interfaces:interfaces/interface[name='eth0']\<close> has
  the two segments \<open>ietf-interfaces:interfaces\<close> and \<open>interface[name='eth0']\<close>, of lengths
  26 and 22. The first Uri-Path option starts with the byte \<open>0xBD\<close> (delta 11, length
  nibble 13), followed by the extended byte \<open>26 - 13\<close> and the bytes of the segment. In
  every message the option numbers of the emitted options (11 for each path segment,
  then 12, then 15 for each query) are non-decreasing. The first Uri-Path option of a
  message is written with the delta 11 and the first Uri-Query option with the delta 3;
  for these deltas, and any delta below 13 of a query, and a length below 269, the
  extended length byte \<open>length - 13\<close> under the nibble 13 is written if and only if the
  length is at least 13; a shorter length is the nibble itself.
\<close>

theorem encodeOptions_port0_and_option_form:
  "segments ''/ietf-interfaces:interfaces/interface[name='eth0']'' =
     [''ietf-interfaces:interfaces'', ''interface[name='eth0']'']
   \<and> map length (segments ''/ietf-interfaces:interfaces/interface[name='eth0']'') = [26, 22]
   \<and> emittedOptions ''/ietf-interfaces:interfaces/interface[name='eth0']'' ! 0 =
       (11, [11 * 16 + 13, 26 - 13] @ map charCodeAt ''ietf-interfaces:interfaces'')
   \<and> sorted (map fst (emittedOptions uri))
   \<and> (segments uri1 = seg # rest \<longrightarrow>
        emittedOptions uri1 ! 0 = (11, pathOptionHeader 11 (int (length seg)) @ map charCodeAt seg))
   \<and> (queries uri2 = q # qs \<longrightarrow>
        emittedOptions uri2 ! Suc (length (segments uri2)) =
          (15, queryOptionHeader 3 (int (length q)) @ map charCodeAt q))
   \<and> (0 \<le> n1 \<and> n1 < 13 \<longrightarrow> pathOptionHeader 11 n1 = [11 * 16 + n1])
   \<and> (13 \<le> n2 \<and> n2 < 269 \<longrightarrow> pathOptionHeader 11 n2 = [11 * 16 + 13, n2 - 13])
   \<and> (d3 < 13 \<and> 0 \<le> n3 \<and> n3 < 13 \<longrightarrow> queryOptionHeader d3 n3 = [d3 * 16 + n3])
   \<and> (d4 < 13 \<and> 13 \<le> n4 \<and> n4 < 269 \<longrightarrow> queryOptionHeader d4 n4 = [d4 * 16 + 13, n4 - 13])"
  using first_option_port0 first_path_option [of uri1 seg rest] first_query_option [of uri2 q qs]
  by (simp add: segments_port0 emittedOptions_sorted pathOptionHeader_def queryOptionHeader_def)

theorem encodeOptions_port0_and_option_form_witness:
  "sorted (map fst (emittedOptions ''c?d=a''))
   \<and> segments ''c?d=a'' = [''c'']
   \<and> emittedOptions ''c?d=a'' ! 0 = (11, [11 * 16 + 1] @ map charCodeAt ''c'')
   \<and> queries ''c?d=a'' = [''d=a'']
   \<and> emittedOptions ''c?d=a'' ! Suc (length (segments ''c?d=a''))
       = (15, [3 * 16 + 3] @ map charCodeAt ''d=a'')
   \<and> pathOptionHeader 11 1 = [11 * 16 + 1]
   \<and> pathOptionHeader 11 26 = [11 * 16 + 13, 26 - 13]
   \<and> queryOptionHeader 3 3 = [3 * 16 + 3]
   \<and> queryOptionHeader 3 20 = [3 * 16 + 13, 20 - 13]"
  using encodeOptions_port0_and_option_form [of "''c?d=a''" "''c?d=a''" "''c''" "[]" "''c?d=a''" "''d=a''" "[]" 1 26 3 3 3 20]
  by (simp add: segments_handshake queries_handshake)

text \<open>
  The claim as stated gives the first segment the length 25; it has 26 characters. The
  second option is written as the extended byte \<open>22 - 13\<close> and the segment, with no
  first byte before them: its delta is 0, so \<open>firstByte\<close> is 0 and \<open>if (firstByte)\<close> skips
  the push.
\<close>

theorem encodeOptions_port0_counterexample:
  "map length (segments ''/ietf-interfaces:interfaces/interface[name='eth0']'') = [26, 22]
   \<and> map length (segments ''/ietf-interfaces:interfaces/interface[name='eth0']'') \<noteq> [25, 22]
   \<and> emittedOptions ''/ietf-interfaces:interfaces/interface[name='eth0']'' ! 1 =
       (11, [22 - 13] @ map charCodeAt ''interface[name='eth0']'')"
  using second_option_port0 by (simp add: segments_port0)

lemma emittedOptions_content_format:
  "emittedOptions uri ! length (segments uri) =
     (12, [(if segments uri = [] then 12 else 1) * 16 + 1, 60])"
  using pathOptions_length [of 0 "segments uri"] pathOptions_prev [of 0 "segments uri"]
  by (simp add: emittedOptions_def contentFormatOption_def case_prod_beta nth_append)

lemma emittedOptions_count_12: "count_list (map fst (emittedOptions uri)) 12 = 1"
  by (simp add: emittedOptions_numbers count_list_append)

text \<open>
  C5 (as amended). \<open>encodeOptions\<close> emits the Content-Format option (number 12, the one
  value byte 60) exactly once in every message, right after the Uri-Path options, with
  the delta 1 after a path segment and 12 when the path has none. The options do not
  depend on the payload: a payload only appends the marker \<open>0xFF\<close> and its encoding to
  the message built without it.
\<close>

theorem content_format_always_emitted:
  "count_list (map fst (emittedOptions uri)) 12 = 1
   \<and> emittedOptions uri ! length (segments uri) =
       (12, [(if segments uri = [] then 12 else 1) * 16 + 1, 60])
   \<and> buildMessage cborEncode method uri payload mid =
       buildMessage cborEncode method uri None mid
       @ (case payload of None \<Rightarrow> [] | Some p \<Rightarrow> 0xFF # cborEncode p)"
  by (simp add: emittedOptions_count_12 emittedOptions_content_format buildMessage_def)

lemma segments_system_state:
  "segments ''/ietf-system:system-state'' = [''ietf-system:system-state'']"
  by (simp add: segments_def pathPart_def)

lemma encodeOptions_system_state:
  "encodeOptions ''/ietf-system:system-state'' =
     [0xBD, 11] @ map charCodeAt ''ietf-system:system-state'' @ [0x11, 60]"
  by (simp add: encodeOptions_def emittedOptions_def segments_system_state queries_def
      queryPart_def pathOptionHeader_def contentFormatOption_def Let_def)

text \<open>
  The claim as stated has no option 12 in a message without payload. The GET of
  \<open>/ietf-system:system-state\<close>, built with the payload \<open>null\<close>, ends with the bytes
  \<open>11 3C\<close> of the Content-Format option.
\<close>

theorem content_format_without_payload_counterexample:
  "buildMessage (\<lambda>p :: unit. []) 1 ''/ietf-system:system-state'' None 1 =
     [0x40, 0x01, 0x00, 0x01, 0xBD, 0x0B] @ map charCode ''ietf-system:system-state''
     @ [0x11, 0x3C]
   \<and> 12 \<in> set (map fst (emittedOptions ''/ietf-system:system-state''))"
  by (simp add: buildMessage_def encodeOptions_system_state toInt32_def toUint8_def
      charCodeAt_def charCode_def emittedOptions_numbers)

section \<open>Deliveries of the event emitter\<close>






































section \<open>The branches of announcement parsing\<close>

lemma splitOn_single: "c \<notin> set a \<Longrightarrow> splitOn c a = [a]"
  by (induction a) auto

lemma splitOn_sep: "c \<notin> set a \<Longrightarrow> splitOn c (a @ c # b) = a # splitOn c b"
  by (induction a) auto

lemma rev_dropWhile_rev_prefix:
  "rev (dropWhile P (rev xs)) = [] \<or> hd (rev (dropWhile P (rev xs))) = hd xs"
proof -
  have "xs = rev (dropWhile P (rev xs)) @ rev (takeWhile P (rev xs))"
    by (metis rev_append rev_rev_ident takeWhile_dropWhile_id)
  then show ?thesis by (metis hd_append2)
qed

lemma trim_lead: "\<forall>c\<in>set lead. isSpace c \<Longrightarrow> trim (lead @ s) = trim s"
  by (simp add: trim_def dropWhile_append2)

lemma trim_all_space: "\<forall>c\<in>set s. isSpace c \<Longrightarrow> trim s = []"
proof -
  assume "\<forall>c\<in>set s. isSpace c"
  then have d: "dropWhile isSpace s = []" by simp
  show ?thesis unfolding trim_def d by simp
qed

lemma trim_core:
  assumes ne: "core \<noteq> []" and h: "\<not> isSpace (hd core)" and l: "\<not> isSpace (last core)"
  shows "trim (core @ tail) = core @ rev (dropWhile isSpace (rev tail))"
proof -
  have lead: "dropWhile isSpace (core @ tail) = core @ tail"
    using ne h by (cases core) simp_all
  have trail: "dropWhile isSpace (rev core) = rev core"
    using ne l by (cases "rev core") (simp_all add: last_rev hd_rev)
  have "dropWhile isSpace (rev tail @ rev core) = dropWhile isSpace (rev tail) @ rev core"
  proof (cases "\<forall>x\<in>set (rev tail). isSpace x")
    case True
    have a: "dropWhile isSpace (rev tail @ rev core) = dropWhile isSpace (rev core)"
      using True by (intro dropWhile_append2) auto
    have b: "dropWhile isSpace (rev tail) = []" using True by simp
    show ?thesis by (simp only: a b trail append_Nil)
  next
    case False
    then obtain x where "x \<in> set (rev tail)" "\<not> isSpace x" by blast
    then show ?thesis by (simp add: dropWhile_append1)
  qed
  then show ?thesis by (simp add: trim_def lead)
qed

lemma trim_framed:
  assumes lead: "\<forall>c\<in>set lead. isSpace c" and trail: "\<forall>c\<in>set trail. isSpace c"
    and core: "core = [] \<or> (\<not> isSpace (hd core) \<and> \<not> isSpace (last core))"
  shows "trim (lead @ core @ trail) = core"
proof (cases "core = []")
  case True
  have "\<forall>c\<in>set (lead @ trail). isSpace c" using lead trail by auto
  from trim_all_space [OF this] show ?thesis using True by simp
next
  case False
  with core have "trim (core @ trail) = core @ rev (dropWhile isSpace (rev trail))"
    by (intro trim_core) simp_all
  also have "rev (dropWhile isSpace (rev trail)) = []" using trail by simp
  finally show ?thesis using lead by (simp add: trim_lead)
qed

lemma startsWith_append: "startsWith s p \<Longrightarrow> startsWith (s @ t) p"
  unfolding startsWith_def
  by (metis append_eq_conv_conj append_take_drop_id append.assoc)

lemma trimmed_tail:
  assumes "tail = [] \<or> isSpace (hd tail)"
  shows "rev (dropWhile isSpace (rev tail)) = [] \<or> isSpace (hd (rev (dropWhile isSpace (rev tail))))"
proof (cases tail)
  case Nil
  then show ?thesis by simp
next
  case (Cons x xs)
  with assms have "isSpace (hd tail)" by simp
  then show ?thesis using rev_dropWhile_rev_prefix [of isSpace tail] by auto
qed

lemma firstToken_token:
  assumes ns: "\<forall>c\<in>set tok. \<not> isSpace c" and tl: "tail = [] \<or> isSpace (hd tail)"
  shows "firstToken (tok @ tail) = tok"
proof -
  have t: "takeWhile (\<lambda>c. \<not> isSpace c) (tok @ tail) = tok"
    using ns tl by (cases tail) (simp_all add: takeWhile_append2)
  show ?thesis
    by (subst firstToken_def, subst splitWs.simps) (simp add: Let_def t)
qed


lemma splitOn_head: "c \<notin> set a \<Longrightarrow> b = [] \<or> hd b = c \<Longrightarrow> \<exists>rest. splitOn c (a @ b) = a # rest"
proof (cases b)
  case Nil
  assume "c \<notin> set a"
  then show ?thesis by (simp add: Nil splitOn_single)
next
  case (Cons x xs)
  assume "c \<notin> set a" "b = [] \<or> hd b = c"
  then show ?thesis by (simp add: Cons splitOn_sep)
qed

lemma trim_firstToken:
  assumes lead: "\<forall>c\<in>set lead. isSpace c" and ne: "tok \<noteq> []"
    and ns: "\<forall>c\<in>set tok. \<not> isSpace c" and tail: "tail = [] \<or> isSpace (hd tail)"
  shows "\<exists>tail'. trim (lead @ tok @ tail) = tok @ tail' \<and> firstToken (tok @ tail') = tok"
proof -
  let ?tail' = "rev (dropWhile isSpace (rev tail))"
  have "trim (tok @ tail) = tok @ ?tail'"
    using ne ns by (intro trim_core) simp_all
  then have "trim (lead @ tok @ tail) = tok @ ?tail'" using lead by (simp add: trim_lead)
  moreover have "firstToken (tok @ ?tail') = tok"
    by (rule firstToken_token [OF ns trimmed_tail [OF tail]])
  ultimately show ?thesis by blast
qed

lemma parseAnnouncement_positive:
  assumes lead: "\<forall>c\<in>set lead. isSpace c"
    and plain: "\<forall>c\<in>set (fw @ model @ serial). c \<noteq> CHR ''-'' \<and> \<not> isSpace c"
    and extra: "\<forall>c\<in>set extra. \<not> isSpace c" "extra = [] \<or> hd extra = CHR ''-''"
    and tail: "tail = [] \<or> isSpace (hd tail)"
  shows "parseAnnouncement (lead @ ''VelocitySP-v'' @ fw @ ''-'' @ model @ ''-'' @ serial @ extra @ tail)
    = \<lparr> deviceType = model, firmwareVersion = fw, serialNumber = serial \<rparr>"
proof -
  let ?tok = "''VelocitySP-v'' @ fw @ ''-'' @ model @ ''-'' @ serial @ extra"
  have ns: "\<forall>c\<in>set ?tok. \<not> isSpace c"
    using plain extra(1) by (auto simp: isSpace_def)
  obtain tail' where tr: "trim (lead @ ?tok @ tail) = ?tok @ tail'"
      and ft: "firstToken (?tok @ tail') = ?tok"
    using trim_firstToken [OF lead _ ns tail] by blast
  have sw: "startsWith (?tok @ tail') ''VelocitySP-v''"
    by (simp add: startsWith_def)
  obtain rest where r: "splitOn (CHR ''-'') (serial @ extra) = serial # rest"
    using splitOn_head [of "CHR ''-''" serial extra] plain extra(2) by auto
  have "splitOn (CHR ''-'') ?tok =
      splitOn (CHR ''-'') (''VelocitySP'' @ CHR ''-'' # ((CHR ''v'' # fw) @ CHR ''-'' #
        (model @ CHR ''-'' # (serial @ extra))))"
    by simp
  also have "\<dots> = ''VelocitySP'' # (CHR ''v'' # fw) # model # serial # rest"
  proof -
    have s1: "splitOn (CHR ''-'') (''VelocitySP'' @ CHR ''-'' # x) = ''VelocitySP'' # splitOn (CHR ''-'') x" for x
      by (rule splitOn_sep) simp
    have s2: "splitOn (CHR ''-'') ((CHR ''v'' # fw) @ CHR ''-'' # x) = (CHR ''v'' # fw) # splitOn (CHR ''-'') x" for x
      by (rule splitOn_sep) (use plain in auto)
    have s3: "splitOn (CHR ''-'') (model @ CHR ''-'' # x) = model # splitOn (CHR ''-'') x" for x
      by (rule splitOn_sep) (use plain in auto)
    show ?thesis by (simp only: s1 s2 s3 r)
  qed
  finally have parts: "splitOn (CHR ''-'') ?tok = ''VelocitySP'' # (CHR ''v'' # fw) # model # serial # rest" .
  have "parseAnnouncement (lead @ ?tok @ tail) = \<lparr> deviceType = model, firmwareVersion = fw, serialNumber = serial \<rparr>"
    unfolding parseAnnouncement_def Let_def tr ft parts using sw
    by (simp add: stripLeadingV_def)
  then show ?thesis by simp
qed

lemma parseAnnouncement_short:
  assumes lead: "\<forall>c\<in>set lead. isSpace c"
    and ns: "\<forall>c\<in>set tok. \<not> isSpace c" and tail: "tail = [] \<or> isSpace (hd tail)"
    and sw: "startsWith tok ''VelocitySP-v''"
    and few: "length (splitOn (CHR ''-'') tok) < 4"
  shows "parseAnnouncement (lead @ tok @ tail)
    = \<lparr> deviceType = tok, firmwareVersion = ''Unknown'', serialNumber = ''Unknown'' \<rparr>"
proof -
  have ne: "tok \<noteq> []" using sw by (auto simp: startsWith_def)
  obtain tail' where tr: "trim (lead @ tok @ tail) = tok @ tail'"
      and ft: "firstToken (tok @ tail') = tok"
    using trim_firstToken [OF lead ne ns tail] by blast
  have sw': "startsWith (tok @ tail') ''VelocitySP-v''"
    by (rule startsWith_append [OF sw])
  show ?thesis
    unfolding parseAnnouncement_def Let_def tr ft using sw' few by simp
qed

lemma parseAnnouncement_other:
  assumes lead: "\<forall>c\<in>set lead. isSpace c" and trail: "\<forall>c\<in>set trail. isSpace c"
    and core: "core = [] \<or> (\<not> isSpace (hd core) \<and> \<not> isSpace (last core))"
    and nsw: "\<not> startsWith core ''VelocitySP-v''"
  shows "parseAnnouncement (lead @ core @ trail)
    = \<lparr> deviceType = core, firmwareVersion = ''Unknown'', serialNumber = ''Unknown'' \<rparr>"
  unfolding parseAnnouncement_def Let_def trim_framed [OF lead trail core] using nsw by simp

text \<open>
  C9 (as amended). \<open>parseAnnouncement\<close> trims the text and tests it for the prefix
  \<open>VelocitySP-v\<close>; white space before the text and after it does not count. A text
  \<open>VelocitySP-v<fw>-<model>-<serial>\<close>, with further dash components or none, followed
  by nothing or by white space and anything, where \<open><fw>\<close>, \<open><model>\<close> and \<open><serial>\<close>
  have no dash and no white space, gives the firmware version \<open><fw>\<close> (the component
  with its leading \<open>v\<close> stripped), the device type \<open><model>\<close> and the serial number
  \<open><serial>\<close>. A text whose first token \<open>tok\<close> has the prefix and fewer than 4 dash
  components gives \<open>tok\<close> as device type. A text that, once trimmed, does not have the
  prefix gives the entire trimmed text as device type. In the last two cases the other
  fields are \<open>Unknown\<close>.
\<close>

theorem parseAnnouncement_branches:
  "((\<forall>c\<in>set lead. isSpace c)
      \<and> (\<forall>c\<in>set (fw @ model @ serial). c \<noteq> CHR ''-'' \<and> \<not> isSpace c)
      \<and> (\<forall>c\<in>set extra. \<not> isSpace c) \<and> (extra = [] \<or> hd extra = CHR ''-'')
      \<and> (tail = [] \<or> isSpace (hd tail))
     \<longrightarrow> parseAnnouncement
            (lead @ ''VelocitySP-v'' @ fw @ ''-'' @ model @ ''-'' @ serial @ extra @ tail)
          = \<lparr> deviceType = model, firmwareVersion = fw, serialNumber = serial \<rparr>)
   \<and> ((\<forall>c\<in>set lead. isSpace c) \<and> (\<forall>c\<in>set tok. \<not> isSpace c)
        \<and> (tail = [] \<or> isSpace (hd tail))
        \<and> startsWith tok ''VelocitySP-v'' \<and> length (splitOn (CHR ''-'') tok) < 4
     \<longrightarrow> parseAnnouncement (lead @ tok @ tail)
          = \<lparr> deviceType = tok, firmwareVersion = ''Unknown'', serialNumber = ''Unknown'' \<rparr>)
   \<and> ((\<forall>c\<in>set lead. isSpace c) \<and> (\<forall>c\<in>set trail. isSpace c)
        \<and> (core = [] \<or> (\<not> isSpace (hd core) \<and> \<not> isSpace (last core)))
        \<and> \<not> startsWith core ''VelocitySP-v''
     \<longrightarrow> parseAnnouncement (lead @ core @ trail)
          = \<lparr> deviceType = core, firmwareVersion = ''Unknown'', serialNumber = ''Unknown'' \<rparr>)"
proof (intro conjI impI)
  assume "(\<forall>c\<in>set lead. isSpace c)
      \<and> (\<forall>c\<in>set (fw @ model @ serial). c \<noteq> CHR ''-'' \<and> \<not> isSpace c)
      \<and> (\<forall>c\<in>set extra. \<not> isSpace c) \<and> (extra = [] \<or> hd extra = CHR ''-'')
      \<and> (tail = [] \<or> isSpace (hd tail))"
  then show "parseAnnouncement
            (lead @ ''VelocitySP-v'' @ fw @ ''-'' @ model @ ''-'' @ serial @ extra @ tail)
          = \<lparr> deviceType = model, firmwareVersion = fw, serialNumber = serial \<rparr>"
    by (intro parseAnnouncement_positive) simp_all
next
  assume "(\<forall>c\<in>set lead. isSpace c) \<and> (\<forall>c\<in>set tok. \<not> isSpace c)
        \<and> (tail = [] \<or> isSpace (hd tail))
        \<and> startsWith tok ''VelocitySP-v'' \<and> length (splitOn (CHR ''-'') tok) < 4"
  then show "parseAnnouncement (lead @ tok @ tail)
          = \<lparr> deviceType = tok, firmwareVersion = ''Unknown'', serialNumber = ''Unknown'' \<rparr>"
    by (intro parseAnnouncement_short) simp_all
next
  assume "(\<forall>c\<in>set lead. isSpace c) \<and> (\<forall>c\<in>set trail. isSpace c)
        \<and> (core = [] \<or> (\<not> isSpace (hd core) \<and> \<not> isSpace (last core)))
        \<and> \<not> startsWith core ''VelocitySP-v''"
  then show "parseAnnouncement (lead @ core @ trail)
          = \<lparr> deviceType = core, firmwareVersion = ''Unknown'', serialNumber = ''Unknown'' \<rparr>"
    by (intro parseAnnouncement_other) simp_all
qed

theorem parseAnnouncement_branches_witness:
  "parseAnnouncement
       ([CHR 0x0D, CHR 0x0A] @ ''VelocitySP-v2025.06-LAN9662-ung8291 326 300 2'' @ [CHR 0x0A])
     = \<lparr> deviceType = ''LAN9662'', firmwareVersion = ''2025.06'', serialNumber = ''ung8291'' \<rparr>
   \<and> parseAnnouncement ('' VelocitySP-v2025.06'' @ [CHR 0x09] @ ''326 '')
     = \<lparr> deviceType = ''VelocitySP-v2025.06'', firmwareVersion = ''Unknown'',
         serialNumber = ''Unknown'' \<rparr>
   \<and> parseAnnouncement ([CHR 0xA0] @ '' VelocitySP-2025.06-LAN9662-ung8291 326 300 2 '' @ [CHR 0x0A])
     = \<lparr> deviceType = ''VelocitySP-2025.06-LAN9662-ung8291 326 300 2'',
         firmwareVersion = ''Unknown'', serialNumber = ''Unknown'' \<rparr>"
proof -
  have 1: "parseAnnouncement ([CHR 0x0D, CHR 0x0A] @ ''VelocitySP-v'' @ ''2025.06'' @ ''-''
       @ ''LAN9662'' @ ''-'' @ ''ung8291'' @ [] @ ('' 326 300 2'' @ [CHR 0x0A]))
     = \<lparr> deviceType = ''LAN9662'', firmwareVersion = ''2025.06'', serialNumber = ''ung8291'' \<rparr>"
    by (rule parseAnnouncement_branches [THEN conjunct1, THEN mp]) (simp add: isSpace_def)
  have sp: "length (splitOn (CHR ''-'') ''VelocitySP-v2025.06'') < 4" by simp
  have 2: "parseAnnouncement ('' '' @ ''VelocitySP-v2025.06'' @ ([CHR 0x09] @ ''326 ''))
     = \<lparr> deviceType = ''VelocitySP-v2025.06'', firmwareVersion = ''Unknown'',
         serialNumber = ''Unknown'' \<rparr>"
    by (rule parseAnnouncement_branches [THEN conjunct2, THEN conjunct1, THEN mp])
      (simp add: isSpace_def startsWith_def)
  have 3: "parseAnnouncement (([CHR 0xA0] @ '' '') @ ''VelocitySP-2025.06-LAN9662-ung8291 326 300 2''
       @ ('' '' @ [CHR 0x0A]))
     = \<lparr> deviceType = ''VelocitySP-2025.06-LAN9662-ung8291 326 300 2'',
         firmwareVersion = ''Unknown'', serialNumber = ''Unknown'' \<rparr>"
    by (rule parseAnnouncement_branches [THEN conjunct2, THEN conjunct2, THEN mp])
      (simp add: isSpace_def startsWith_def)
  show ?thesis using 1 2 3 by simp
qed

lemma trim_no_v:
  "trim ''VelocitySP-2025.06-LAN9662-ung8291 326 300 2''
     = ''VelocitySP-2025.06-LAN9662-ung8291 326 300 2''"
  by (simp add: trim_def isSpace_def)

lemma firstToken_no_v:
  "firstToken ''VelocitySP-2025.06-LAN9662-ung8291 326 300 2''
     = ''VelocitySP-2025.06-LAN9662-ung8291''"
  using firstToken_token [of "''VelocitySP-2025.06-LAN9662-ung8291''" "'' 326 300 2''"]
  by (simp add: isSpace_def)

text \<open>
  The claim as stated takes the positive branch whenever the first token starts with
  \<open>VelocitySP-\<close> and has 4 dash components. For such a token whose second component does
  not begin with \<open>v\<close>, the test for the prefix \<open>VelocitySP-v\<close> fails and the device type is
  the entire text, not the third component.
\<close>

theorem parseAnnouncement_no_v_counterexample:
  "splitOn (CHR ''-'') (firstToken (trim ''VelocitySP-2025.06-LAN9662-ung8291 326 300 2''))
     = [''VelocitySP'', ''2025.06'', ''LAN9662'', ''ung8291'']
   \<and> parseAnnouncement ''VelocitySP-2025.06-LAN9662-ung8291 326 300 2''
     = \<lparr> deviceType = ''VelocitySP-2025.06-LAN9662-ung8291 326 300 2'',
         firmwareVersion = ''Unknown'', serialNumber = ''Unknown'' \<rparr>
   \<and> deviceType (parseAnnouncement ''VelocitySP-2025.06-LAN9662-ung8291 326 300 2'')
     \<noteq> ''LAN9662''"
  by (simp add: parseAnnouncement_def Let_def trim_no_v firstToken_no_v startsWith_def)

end
